theory Spec2Isabelle
  imports Main "HOL-Library.Multiset"
begin

text \<open>
  A shallow embedding of the Unit09 builder's shared types (semantic versions, lifecycle
  summaries, fork lineage, tag normalization, the JSON form of the global metrics) and of
  its worker service (the in-memory job queue and the worker loop), with the properties
  its design document states about them.  The first part holds the definitions, one
  section for each source file; the second part holds the proofs.

  Conventions.  A \<^verbatim>\<open>number\<close> that holds a count, a depth or a clock reading is an
  integer; a version component is an integer-valued double, and adding to it rounds as
  the language's addition does; an optional field is an \<open>option\<close>; a function that can
  throw returns a sum with the error on the left; a function that changes module state
  takes the state and returns the new one; what the environment supplies (clock
  readings, random text, the outcome of a handler) is an argument.
\<close>

section \<open>Semantic versions (packages/shared-types/src/metrics.ts)\<close>

text \<open>
  \<^verbatim>\<open>SemanticVersionTuple = [number, number, number]\<close>.  The components are integer
  version numbers held in doubles: a component is the integer value of a finite double.
  Comparing two such values compares the integers.  Adding two of them gives the double
  nearest to the exact sum, ties going to the even significand.
\<close>

type_synonym SemanticVersionTuple = "int \<times> int \<times> int"

text \<open>The number of binary digits of a positive integer.\<close>

function bitLength :: "int \<Rightarrow> nat" where
  "bitLength n = (if n \<le> 0 then 0 else Suc (bitLength (n div 2)))"
  by pat_completeness auto
termination
  by (relation "measure nat") auto

declare bitLength.simps [simp del]

text \<open>
  The double nearest to an integer (for magnitudes below the overflow threshold
  \<open>2 ^ 1024\<close>).  A double has a significand of 53 binary digits, so every integer up to
  \<open>2 ^ 53\<close> in magnitude is a double.  A larger one, of \<open>53 + e\<close> digits, lies
  between two neighbouring multiples of \<open>2 ^ e\<close>: it goes to the nearer one, and from
  the middle to the one whose significand \<open>q\<close> is even.
\<close>

definition roundToDouble :: "int \<Rightarrow> int" where
  "roundToDouble n =
     (if \<bar>n\<bar> \<le> 2 ^ 53 then n
      else (let m = \<bar>n\<bar>;
                e = bitLength m - 53;
                q = m div 2 ^ e;
                r = m mod 2 ^ e;
                half = 2 ^ (e - 1);
                q' = (if r < half then q
                      else if half < r then q + 1
                      else if even q then q else q + 1)
            in sgn n * (q' * 2 ^ e)))"

text \<open>\<^verbatim>\<open>a + b\<close> on two integer-valued doubles.\<close>

definition jsAdd :: "int \<Rightarrow> int \<Rightarrow> int" where
  "jsAdd a b = roundToDouble (a + b)"

text \<open>Indexing \<^verbatim>\<open>a[i]\<close> for the three positions the loop visits.\<close>

fun component :: "SemanticVersionTuple \<Rightarrow> nat \<Rightarrow> int" where
  "component (major, minor, patch) i =
     (if i = 0 then major else if i = 1 then minor else patch)"

text \<open>
  The loop \<^verbatim>\<open>for (let i = 0; i < 3; i += 1)\<close> of \<^verbatim>\<open>compareSemanticVersion\<close>, as a
  recursion on the loop counter.
\<close>

function compareLoop :: "SemanticVersionTuple \<Rightarrow> SemanticVersionTuple \<Rightarrow> nat \<Rightarrow> int" where
  "compareLoop a b i =
     (if i < 3
      then (if component a i < component b i then - 1
            else if component a i > component b i then 1
            else compareLoop a b (i + 1))
      else 0)"
  by pat_completeness auto
termination
  by (relation "measure (\<lambda>(a, b, i). 3 - i)") auto

definition compareSemanticVersion :: "SemanticVersionTuple \<Rightarrow> SemanticVersionTuple \<Rightarrow> int" where
  "compareSemanticVersion a b = compareLoop a b 0"

datatype VersionPart = Major | Minor | Patch

fun bumpSemanticVersion :: "SemanticVersionTuple \<Rightarrow> VersionPart \<Rightarrow> SemanticVersionTuple" where
  "bumpSemanticVersion (major, minor, patch) part =
     (if part = Major then (jsAdd major 1, 0, 0)
      else if part = Minor then (major, jsAdd minor 1, 0)
      else (major, minor, jsAdd patch 1))"

text \<open>The component of a version that a bump of the given part adds to.\<close>

fun partComponent :: "SemanticVersionTuple \<Rightarrow> VersionPart \<Rightarrow> int" where
  "partComponent (major, minor, patch) Major = major"
| "partComponent (major, minor, patch) Minor = minor"
| "partComponent (major, minor, patch) Patch = patch"

section \<open>Lifecycle summaries (packages/shared-types/src/metrics.ts)\<close>

datatype LifecycleStatus = Created | Observing | Stable | Degraded | ErrorStatus | Archived

datatype LifecycleEventKind =
    RepoCreated | RepoUpdated | ModuleRegistered | ModuleUpdated
  | ForkCreated | ForkUpdated | ObservationStarted | ObservationCompleted
  | MetricsUpdated | ErrorEvent

datatype SubjectType = RepoSubject | ModuleSubject | ForkSubject | GlobalSubject

text \<open>
  Timestamps are millisecond counts (\<^verbatim>\<open>number\<close> in the source), modelled as integers.
  An optional field (\<^verbatim>\<open>lastObservationAt?: number\<close>) is an \<open>option\<close>.
\<close>

record LifecycleSummary =
  createdAt :: int
  lastActivityAt :: int
  lastObservationAt :: "int option"
  lastErrorAt :: "int option"
  status :: "LifecycleStatus option"

record LifecycleEvent =
  event_id :: string
  kind :: LifecycleEventKind
  subjectType :: SubjectType
  subjectKey :: string
  message :: string
  timestamp :: int
  errorCode :: "string option"

text \<open>\<^verbatim>\<open>x ?? 0\<close> on an optional number.\<close>

definition orZero :: "int option \<Rightarrow> int" where
  "orZero x = (case x of None \<Rightarrow> 0 | Some t \<Rightarrow> t)"

text \<open>
  \<^verbatim>\<open>applyLifecycleEvent\<close>: the copy \<^verbatim>\<open>next\<close> of the summary is updated by four
  statements in sequence; each \<open>let\<close> below is one of them.
\<close>

definition applyLifecycleEvent :: "LifecycleSummary \<Rightarrow> LifecycleEvent \<Rightarrow> LifecycleSummary" where
  "applyLifecycleEvent summary event =
     (let next0 = summary\<lparr>lastActivityAt := max (lastActivityAt summary) (timestamp event)\<rparr>;
          next1 = (if kind event = ObservationStarted \<or> kind event = ObservationCompleted
                   then next0\<lparr>lastObservationAt :=
                          Some (max (orZero (lastObservationAt next0)) (timestamp event))\<rparr>
                   else next0);
          next2 = (if kind event = ErrorEvent
                   then next1\<lparr>lastErrorAt := Some (max (orZero (lastErrorAt next1)) (timestamp event)),
                              status := Some ErrorStatus\<rparr>
                   else next1);
          next3 = (if status next2 = None then next2\<lparr>status := Some Created\<rparr> else next2)
      in next3)"

text \<open>Applying a sequence of events, oldest first.\<close>

definition applyLifecycleEvents :: "LifecycleSummary \<Rightarrow> LifecycleEvent list \<Rightarrow> LifecycleSummary" where
  "applyLifecycleEvents summary events = foldl applyLifecycleEvent summary events"

section \<open>Fork lineage (packages/shared-types/src/repo.ts)\<close>

datatype ForkType = Unit09Instance | ModuleVariant | Experiment | ArchiveFork

record ForkMetadata =
  forkKey :: string
  parent :: "string option"
  label :: string
  forkType :: ForkType
  metadataUri :: "string option"
  tags :: "string list"
  depth :: int
  isRoot :: bool
  isActive :: bool
  fork_createdAt :: int
  fork_updatedAt :: int

record ForkLineage =
  rootForkKey :: string
  path :: "string list"

text \<open>
  \<^verbatim>\<open>[...ancestors].sort((a, b) => a.depth - b.depth)\<close>: the array sort of the
  language is stable, so the copy is the stable sort of the ancestors by depth.
\<close>

definition sortByDepth :: "ForkMetadata list \<Rightarrow> ForkMetadata list" where
  "sortByDepth ancestors = sort_key depth ancestors"

text \<open>\<^verbatim>\<open>sorted[0]?.forkKey ?? fork.forkKey\<close>.\<close>

definition firstKeyOr :: "ForkMetadata list \<Rightarrow> string \<Rightarrow> string" where
  "firstKeyOr sorted_ancestors fallback =
     (case sorted_ancestors of [] \<Rightarrow> fallback | a # _ \<Rightarrow> forkKey a)"

definition buildForkLineage :: "ForkMetadata \<Rightarrow> ForkMetadata list \<Rightarrow> ForkLineage" where
  "buildForkLineage fork ancestors =
     (let sorted_ancestors = sortByDepth ancestors;
          pathKeys = map forkKey sorted_ancestors @ [forkKey fork];
          root = firstKeyOr sorted_ancestors (forkKey fork)
      in \<lparr>rootForkKey = root, path = pathKeys\<rparr>)"

text \<open>A fork record with the given key and depth; the other fields are fixed.\<close>

definition mkFork :: "string \<Rightarrow> int \<Rightarrow> ForkMetadata" where
  "mkFork k d =
     \<lparr>forkKey = k, parent = None, label = [], forkType = Experiment, metadataUri = None,
      tags = [], depth = d, isRoot = (d = 0), isActive = True,
      fork_createdAt = 0, fork_updatedAt = 0\<rparr>"

section \<open>Repository tags (packages/shared-types/src/repo.ts, packages/sdk/src/queries/listRepos.ts)\<close>

text \<open>
  Strings are lists of 8-bit characters: the model covers strings over the code points
  U+0000 to U+00FF.  \<^verbatim>\<open>String.prototype.trim\<close> removes white space and line
  terminators from both ends; in this range these are U+0009 to U+000D, U+0020 and U+00A0.
\<close>

definition isWhiteSpace :: "char \<Rightarrow> bool" where
  "isWhiteSpace c =
     (let n = (of_char c :: nat)
      in n = 9 \<or> n = 10 \<or> n = 11 \<or> n = 12 \<or> n = 13 \<or> n = 32 \<or> n = 160)"

definition trim :: "string \<Rightarrow> string" where
  "trim s = rev (dropWhile isWhiteSpace (rev (dropWhile isWhiteSpace s)))"

text \<open>
  \<^verbatim>\<open>String.prototype.toLowerCase\<close> on this range: A to Z, and the accented capitals
  U+00C0 to U+00DE (without the multiplication sign U+00D7), move up by 32.
\<close>

definition toLowerChar :: "char \<Rightarrow> char" where
  "toLowerChar c =
     (let n = (of_char c :: nat)
      in if (65 \<le> n \<and> n \<le> 90) \<or> (192 \<le> n \<and> n \<le> 222 \<and> n \<noteq> 215)
         then char_of (n + 32) else c)"

definition toLowerCase :: "string \<Rightarrow> string" where
  "toLowerCase s = map toLowerChar s"

text \<open>
  \<^verbatim>\<open>normalizeRepoTags(tags: string[] | undefined)\<close>; \<open>None\<close> is \<^verbatim>\<open>undefined\<close>.
\<close>

definition normalizeRepoTags :: "string list option \<Rightarrow> string list" where
  "normalizeRepoTags tagsOpt =
     (case tagsOpt of
        None \<Rightarrow> []
      | Some ts \<Rightarrow>
          if length ts = 0 then []
          else map (\<lambda>tag. toLowerCase tag)
                 (filter (\<lambda>tag. length tag > 0) (map (\<lambda>tag. trim tag) ts)))"

text \<open>\<^verbatim>\<open>s.split(sep)\<close> for a one-character separator; the empty string gives one empty piece.\<close>

fun splitOn :: "char \<Rightarrow> string \<Rightarrow> string list" where
  "splitOn sep [] = [[]]"
| "splitOn sep (c # cs) =
     (if c = sep then [] # splitOn sep cs
      else (case splitOn sep cs of [] \<Rightarrow> [[c]] | p # ps \<Rightarrow> (c # p) # ps))"

text \<open>
  The \<^verbatim>\<open>tags\<close> field of a stored repository account, as \<^verbatim>\<open>listRepos\<close> reads it:
  a comma-separated string, an array of strings, or absent.
\<close>

datatype RawTags = TagsString string | TagsArray "string list" | TagsMissing

text \<open>
  The projection of the field in \<^verbatim>\<open>listRepos\<close>:
  \<^verbatim>\<open>normalizeRepoTags(typeof tags === "string" ? tags.split(",") : tags ?? [])\<close>.
\<close>

definition projectRepoTags :: "RawTags \<Rightarrow> string list" where
  "projectRepoTags raw =
     normalizeRepoTags
       (Some (case raw of
                TagsString s \<Rightarrow> splitOn CHR '','' s
              | TagsArray ts \<Rightarrow> ts
              | TagsMissing \<Rightarrow> []))"

section \<open>Global metrics and their JSON form (packages/shared-types/src/metrics.ts)\<close>

text \<open>A \<^verbatim>\<open>bigint\<close> is an unbounded integer.\<close>

record GlobalMetricsSnapshot =
  totalRepos :: int
  totalModules :: int
  totalForks :: int
  totalObservations :: int
  totalLinesOfCode :: int
  totalFilesProcessed :: int

record GlobalMetricsSnapshotJson =
  json_totalRepos :: string
  json_totalModules :: string
  json_totalForks :: string
  json_totalObservations :: string
  json_totalLinesOfCode :: string
  json_totalFilesProcessed :: string

text \<open>
  \<^verbatim>\<open>BigInt.prototype.toString()\<close>: the decimal digits, most significant first, without
  leading zeros, after a minus sign for a negative value.
\<close>

definition digitChar :: "nat \<Rightarrow> char" where
  "digitChar d = char_of (48 + d)"

fun natToDigits :: "nat \<Rightarrow> string" where
  "natToDigits n =
     (if n < 10 then [digitChar n] else natToDigits (n div 10) @ [digitChar (n mod 10)])"

declare natToDigits.simps [simp del]

definition bigintToString :: "int \<Rightarrow> string" where
  "bigintToString n =
     (if n < 0 then CHR ''-'' # natToDigits (nat (- n)) else natToDigits (nat n))"

text \<open>
  \<^verbatim>\<open>BigInt(string)\<close> reads the string by the language's StringToBigInt: white space
  around the literal is dropped; the empty literal is 0; a literal is decimal digits with
  an optional sign, or binary, octal or hexadecimal digits after \<^verbatim>\<open>0b\<close>, \<^verbatim>\<open>0o\<close>,
  \<^verbatim>\<open>0x\<close> (either case, no sign); anything else throws a SyntaxError.
\<close>

datatype js_error = SyntaxError

definition digitValue :: "char \<Rightarrow> nat option" where
  "digitValue c =
     (let n = (of_char c :: nat)
      in if 48 \<le> n \<and> n \<le> 57 then Some (n - 48)
         else if 97 \<le> n \<and> n \<le> 102 then Some (n - 87)
         else if 65 \<le> n \<and> n \<le> 70 then Some (n - 55)
         else None)"

fun parseDigits :: "nat \<Rightarrow> nat \<Rightarrow> string \<Rightarrow> nat option" where
  "parseDigits base acc [] = Some acc"
| "parseDigits base acc (c # cs) =
     (case digitValue c of
        None \<Rightarrow> None
      | Some d \<Rightarrow> if d < base then parseDigits base (acc * base + d) cs else None)"

definition digitsValue :: "nat \<Rightarrow> string \<Rightarrow> nat option" where
  "digitsValue base s = (if s = [] then None else parseDigits base 0 s)"

definition nonDecimalBase :: "string \<Rightarrow> nat option" where
  "nonDecimalBase s =
     (case s of
        c0 # c1 # _ \<Rightarrow>
          if c0 = CHR ''0'' then
            (if c1 = CHR ''x'' \<or> c1 = CHR ''X'' then Some 16
             else if c1 = CHR ''o'' \<or> c1 = CHR ''O'' then Some 8
             else if c1 = CHR ''b'' \<or> c1 = CHR ''B'' then Some 2
             else None)
          else None
      | _ \<Rightarrow> None)"

definition signedDecimal :: "string \<Rightarrow> int option" where
  "signedDecimal s =
     (case s of
        [] \<Rightarrow> None
      | c # ds \<Rightarrow>
          if c = CHR ''+'' then map_option int (digitsValue 10 ds)
          else if c = CHR ''-'' then map_option (\<lambda>n. - int n) (digitsValue 10 ds)
          else map_option int (digitsValue 10 s))"

definition StringToBigInt :: "string \<Rightarrow> int option" where
  "StringToBigInt str =
     (let s = trim str
      in if s = [] then Some 0
         else (case nonDecimalBase s of
                 Some base \<Rightarrow> map_option int (digitsValue base (drop 2 s))
               | None \<Rightarrow> signedDecimal s))"

definition BigInt :: "string \<Rightarrow> js_error + int" where
  "BigInt str = (case StringToBigInt str of None \<Rightarrow> Inl SyntaxError | Some n \<Rightarrow> Inr n)"

definition globalMetricsToJson :: "GlobalMetricsSnapshot \<Rightarrow> GlobalMetricsSnapshotJson" where
  "globalMetricsToJson input =
     \<lparr>json_totalRepos = bigintToString (totalRepos input),
      json_totalModules = bigintToString (totalModules input),
      json_totalForks = bigintToString (totalForks input),
      json_totalObservations = bigintToString (totalObservations input),
      json_totalLinesOfCode = bigintToString (totalLinesOfCode input),
      json_totalFilesProcessed = bigintToString (totalFilesProcessed input)\<rparr>"

text \<open>
  The object literal of \<^verbatim>\<open>globalMetricsFromJson\<close> evaluates its six \<^verbatim>\<open>BigInt(...)\<close>
  calls in order; the first one that throws ends the function with that error.
\<close>

definition globalMetricsFromJson :: "GlobalMetricsSnapshotJson \<Rightarrow> js_error + GlobalMetricsSnapshot" where
  "globalMetricsFromJson input =
     (case BigInt (json_totalRepos input) of Inl e \<Rightarrow> Inl e | Inr repos \<Rightarrow>
      case BigInt (json_totalModules input) of Inl e \<Rightarrow> Inl e | Inr modules \<Rightarrow>
      case BigInt (json_totalForks input) of Inl e \<Rightarrow> Inl e | Inr forks \<Rightarrow>
      case BigInt (json_totalObservations input) of Inl e \<Rightarrow> Inl e | Inr observations \<Rightarrow>
      case BigInt (json_totalLinesOfCode input) of Inl e \<Rightarrow> Inl e | Inr linesOfCode \<Rightarrow>
      case BigInt (json_totalFilesProcessed input) of Inl e \<Rightarrow> Inl e | Inr filesProcessed \<Rightarrow>
        Inr \<lparr>totalRepos = repos, totalModules = modules, totalForks = forks,
             totalObservations = observations, totalLinesOfCode = linesOfCode,
             totalFilesProcessed = filesProcessed\<rparr>)"

section \<open>Job queue (services/worker/src/queue/jobTypes.ts, jobQueue.ts)\<close>

datatype JobType =
    ObserveRepo | AnalyzeRepo | Decompose | GenerateModules
  | ValidateModules | SyncOnChain | ForkEvolution

text \<open>
  A job.  The payload is opaque to the queue and the worker loop (a type parameter);
  clock readings (\<^verbatim>\<open>Date.now()\<close>) and counters are integers.
\<close>

record 'p Job =
  job_id :: string
  job_type :: JobType
  payload :: 'p
  job_createdAt :: int
  startedAt :: "int option"
  completedAt :: "int option"
  attempts :: int
  maxAttempts :: int

record 'o JobResult =
  success :: bool
  error :: "string option"
  job_output :: "'o option"

text \<open>
  The module-level state \<^verbatim>\<open>const jobs: Job[]\<close> and
  \<^verbatim>\<open>const results: Record<string, JobResult>\<close>.  Job objects are shared by reference
  between the array and the callers, which mutate them.  Every job object is created by
  \<^verbatim>\<open>enqueue\<close> and pushed, and nothing is ever removed, so a reference to a job is its
  position in the array.
\<close>

record ('p, 'o) QueueState =
  jobs :: "'p Job list"
  results :: "string \<rightharpoonup> 'o JobResult"

text \<open>
  \<^verbatim>\<open>enqueue(type, payload)\<close>.  The two clock readings and the random suffix
  (\<^verbatim>\<open>Math.random().toString(16).slice(2)\<close>) come from the environment; in the
  template string the clock reading, an integer, prints as its decimal digits, as
  \<open>bigintToString\<close> writes them.  Returns the reference to the new job and the new
  state.
\<close>

definition enqueue ::
  "JobType \<Rightarrow> 'p \<Rightarrow> int \<Rightarrow> string \<Rightarrow> int \<Rightarrow> ('p, 'o) QueueState \<Rightarrow> nat \<times> ('p, 'o) QueueState" where
  "enqueue ty pl idClock randomSuffix createdClock q =
     (let job = \<lparr>job_id = ''job-'' @ bigintToString idClock @ ''-'' @ randomSuffix,
                 job_type = ty,
                 payload = pl,
                 job_createdAt = createdClock,
                 startedAt = None,
                 completedAt = None,
                 attempts = 0,
                 maxAttempts = 3\<rparr>
      in (length (jobs q), q\<lparr>jobs := jobs q @ [job]\<rparr>))"

text \<open>
  \<^verbatim>\<open>!job.startedAt\<close>: true when the field is absent, and also when it holds 0.
\<close>

definition notStarted :: "'p Job \<Rightarrow> bool" where
  "notStarted job = (case startedAt job of None \<Rightarrow> True | Some t \<Rightarrow> t = 0)"

text \<open>\<^verbatim>\<open>Array.prototype.find\<close>, returning the reference to the first match.\<close>

fun findRef :: "('a \<Rightarrow> bool) \<Rightarrow> 'a list \<Rightarrow> nat option" where
  "findRef P [] = None"
| "findRef P (x # xs) = (if P x then Some 0 else map_option Suc (findRef P xs))"

text \<open>\<^verbatim>\<open>next()\<close>: the result and the state after the call.\<close>

definition next_job :: "('p, 'o) QueueState \<Rightarrow> nat option \<times> ('p, 'o) QueueState" where
  "next_job q = (findRef notStarted (jobs q), q)"

text \<open>
  \<^verbatim>\<open>markCompleted(job, result)\<close>, with the clock reading of the call.  A reference
  beyond the array denotes no job object: \<open>None\<close>.
\<close>

definition markCompleted ::
  "nat \<Rightarrow> 'o JobResult \<Rightarrow> int \<Rightarrow> ('p, 'o) QueueState \<Rightarrow> ('p, 'o) QueueState option" where
  "markCompleted ref result now q =
     (if ref < length (jobs q)
      then Some (q\<lparr>jobs := (jobs q)[ref := (jobs q ! ref)\<lparr>completedAt := Some now\<rparr>],
                   results := (results q)(job_id (jobs q ! ref) \<mapsto> result)\<rparr>)
      else None)"


definition getJobResult :: "string \<Rightarrow> ('p, 'o) QueueState \<Rightarrow> 'o JobResult option" where
  "getJobResult jobId q = results q jobId"

text \<open>Reading the job object behind a reference.\<close>

definition jobAt :: "nat \<Rightarrow> ('p, 'o) QueueState \<Rightarrow> 'p Job option" where
  "jobAt ref q = (if ref < length (jobs q) then Some (jobs q ! ref) else None)"


definition emptyQueue :: "('p, 'o) QueueState" where
  "emptyQueue = \<lparr>jobs = [], results = Map.empty\<rparr>"

section \<open>Worker loop (services/worker/src/index.ts, config.ts, utils/metrics.ts)\<close>

text \<open>
  The configuration \<^verbatim>\<open>loadWorkerConfig\<close> returns; the two numbers are the integers
  \<^verbatim>\<open>parseInt\<close> reads from the environment (1000 and 4 when unset).
\<close>

record WorkerConfig =
  logLevel :: string
  pollIntervalMs :: int
  maxConcurrentJobs :: int

text \<open>
  The state of \<^verbatim>\<open>main\<close>: the queue, the variable \<^verbatim>\<open>activeJobs\<close>, the three
  counters and the gauge of the metrics, and the dispatched jobs whose handler has not
  settled yet (one suspended \<^verbatim>\<open>await\<close> of \<^verbatim>\<open>tick\<close> for each).
\<close>

record ('p, 'o) Worker =
  queue :: "('p, 'o) QueueState"
  activeJobs :: int
  jobsStarted :: int
  jobsCompleted :: int
  jobsFailed :: int
  activeJobsGauge :: int
  inFlight :: "nat list"

definition initialWorker :: "('p, 'o) Worker" where
  "initialWorker =
     \<lparr>queue = emptyQueue, activeJobs = 0, jobsStarted = 0, jobsCompleted = 0,
      jobsFailed = 0, activeJobsGauge = 0, inFlight = []\<rparr>"

text \<open>
  The registry \<^verbatim>\<open>handlers\<close> of jobHandlers.ts has an entry for each of the seven job
  types.  The worker loop is modelled for any registry (which types have a handler).
\<close>

fun handlers :: "JobType \<Rightarrow> bool" where
  "handlers ObserveRepo = True"
| "handlers AnalyzeRepo = True"
| "handlers Decompose = True"
| "handlers GenerateModules = True"
| "handlers ValidateModules = True"
| "handlers SyncOnChain = True"
| "handlers ForkEvolution = True"

text \<open>
  \<^verbatim>\<open>tick\<close> from its start to the \<^verbatim>\<open>await\<close> of the handler: the part that runs when
  the timer fires.
\<close>

definition tick ::
  "WorkerConfig \<Rightarrow> (JobType \<Rightarrow> bool) \<Rightarrow> int \<Rightarrow> ('p, 'o) Worker \<Rightarrow> ('p, 'o) Worker" where
  "tick config hasHandler now w =
     (if activeJobs w \<ge> maxConcurrentJobs config then w
      else (case fst (next_job (queue w)) of
              None \<Rightarrow> w
            | Some ref \<Rightarrow>
                (let job = jobs (queue w) ! ref
                 in if \<not> hasHandler (job_type job) then w
                    else w\<lparr>queue := (queue w)\<lparr>jobs := (jobs (queue w))[ref := job\<lparr>startedAt := Some now\<rparr>]\<rparr>,
                           activeJobs := activeJobs w + 1,
                           jobsStarted := jobsStarted w + 1,
                           activeJobsGauge := activeJobs w + 1,
                           inFlight := inFlight w @ [ref]\<rparr>)))"

text \<open>
  The rest of \<^verbatim>\<open>tick\<close> for one dispatched job, run when its handler settles: the
  \<^verbatim>\<open>try\<close> branch when the handler returns a result, the \<^verbatim>\<open>catch\<close> branch when it
  throws, each followed by the \<^verbatim>\<open>finally\<close> block.  Only a job in flight can settle.
\<close>

definition handlerResolved ::
  "nat \<Rightarrow> 'o JobResult \<Rightarrow> int \<Rightarrow> ('p, 'o) Worker \<Rightarrow> ('p, 'o) Worker option" where
  "handlerResolved ref result now w =
     (if ref \<in> set (inFlight w)
      then (case markCompleted ref result now (queue w) of
              None \<Rightarrow> None
            | Some q' \<Rightarrow>
                Some (w\<lparr>queue := q',
                        jobsCompleted := jobsCompleted w + 1,
                        activeJobs := activeJobs w - 1,
                        activeJobsGauge := activeJobs w - 1,
                        inFlight := remove1 ref (inFlight w)\<rparr>))
      else None)"

definition handlerRejected :: "nat \<Rightarrow> ('p, 'o) Worker \<Rightarrow> ('p, 'o) Worker option" where
  "handlerRejected ref w =
     (if ref \<in> set (inFlight w) \<and> ref < length (jobs (queue w))
      then (let job = jobs (queue w) ! ref
            in Some (w\<lparr>queue := (queue w)\<lparr>jobs := (jobs (queue w))[ref := job\<lparr>attempts := attempts job + 1\<rparr>]\<rparr>,
                       jobsFailed := jobsFailed w + 1,
                       activeJobs := activeJobs w - 1,
                       activeJobsGauge := activeJobs w - 1,
                       inFlight := remove1 ref (inFlight w)\<rparr>))
      else None)"

text \<open>
  What can happen to a running worker: a job is enqueued, the timer fires, a handler
  returns, a handler throws.  A run is a sequence of such events; \<open>None\<close> when the
  sequence names a settlement of a job that is not in flight.
\<close>

datatype ('p, 'o) Event =
    Enqueued JobType 'p int string int
  | TimerFired int
  | HandlerReturned nat "'o JobResult" int
  | HandlerThrew nat

fun step ::
  "WorkerConfig \<Rightarrow> (JobType \<Rightarrow> bool) \<Rightarrow> ('p, 'o) Event \<Rightarrow> ('p, 'o) Worker \<Rightarrow> ('p, 'o) Worker option" where
  "step config hasHandler (Enqueued ty pl idClock rnd createdClock) w =
     Some (w\<lparr>queue := snd (enqueue ty pl idClock rnd createdClock (queue w))\<rparr>)"
| "step config hasHandler (TimerFired now) w = Some (tick config hasHandler now w)"
| "step config hasHandler (HandlerReturned ref result now) w = handlerResolved ref result now w"
| "step config hasHandler (HandlerThrew ref) w = handlerRejected ref w"

fun run ::
  "WorkerConfig \<Rightarrow> (JobType \<Rightarrow> bool) \<Rightarrow> ('p, 'o) Event list \<Rightarrow> ('p, 'o) Worker \<Rightarrow> ('p, 'o) Worker option" where
  "run config hasHandler [] w = Some w"
| "run config hasHandler (e # es) w =
     (case step config hasHandler e w of
        None \<Rightarrow> None
      | Some w' \<Rightarrow> run config hasHandler es w')"


text \<open>The number of jobs whose \<^verbatim>\<open>startedAt\<close> has been set.\<close>

definition dispatchedCount :: "('p, 'o) Worker \<Rightarrow> nat" where
  "dispatchedCount w = length (filter (\<lambda>job. startedAt job \<noteq> None) (jobs (queue w)))"

section \<open>Sample states of the queue and the worker\<close>

text \<open>Sample values: a result, and queues holding one and two jobs that were never started.\<close>

definition sampleResult :: "unit JobResult" where
  "sampleResult = \<lparr>success = True, error = None, job_output = None\<rparr>"

definition oneJobQueue :: "(unit, unit) QueueState" where
  "oneJobQueue = snd (enqueue ObserveRepo () 1000 ''a1'' 1000 emptyQueue)"


text \<open>
  Sample values for the worker loop: the default configuration of
  \<^verbatim>\<open>loadWorkerConfig\<close> (ceiling 4), a run that enqueues five jobs and lets the timer
  fire four times, and the state that run ends in.
\<close>

definition defaultConfig :: WorkerConfig where
  "defaultConfig = \<lparr>logLevel = ''info'', pollIntervalMs = 1000, maxConcurrentJobs = 4\<rparr>"

definition sampleJob :: "int \<Rightarrow> int option \<Rightarrow> unit Job" where
  "sampleJob n started =
     \<lparr>job_id = ''job-'' @ bigintToString n @ ''-'' @ ''f'', job_type = ObserveRepo, payload = (),
      job_createdAt = n, startedAt = started, completedAt = None, attempts = 0,
      maxAttempts = 3\<rparr>"

definition fiveJobsFourTicks :: "(unit, unit) Event list" where
  "fiveJobsFourTicks =
     [Enqueued ObserveRepo () 1 ''f'' 1, Enqueued ObserveRepo () 2 ''f'' 2,
      Enqueued ObserveRepo () 3 ''f'' 3, Enqueued ObserveRepo () 4 ''f'' 4,
      Enqueued ObserveRepo () 5 ''f'' 5,
      TimerFired 10, TimerFired 20, TimerFired 30, TimerFired 40]"

definition busyWorker :: "(unit, unit) Worker" where
  "busyWorker =
     \<lparr>queue = \<lparr>jobs = [sampleJob 1 (Some 10), sampleJob 2 (Some 20), sampleJob 3 (Some 30),
                       sampleJob 4 (Some 40), sampleJob 5 None],
               results = Map.empty\<rparr>,
      activeJobs = 4, jobsStarted = 4, jobsCompleted = 0, jobsFailed = 0,
      activeJobsGauge = 4, inFlight = [0, 1, 2, 3]\<rparr>"




section \<open>Fork creation against the record store\<close>

text \<open>
  The program that executes \<^verbatim>\<open>createFork\<close> and keeps the fork records is not among
  the source files: the SDK only builds the call (\<^verbatim>\<open>buildCreateForkInstruction\<close>) and
  the test \<^verbatim>\<open>prevents creating the same forkKey twice\<close> only observes that the second
  call is rejected.  The three definitions below follow the design document instead.
\<close>

datatype StoreError = InvalidKey | NotFound | AlreadyExists

type_synonym Address = "string \<times> string"

text \<open>
  Modelled from the spec: the Addressing Function \<^verbatim>\<open>derive(namespace, naturalKey)\<close>,
  whose implementation (the program-address derivation of the ledger's library) is not
  in the source files.  It is pure, deterministic and collision-free, so an address is
  represented by the namespace tag and the key it is derived from; keys are taken to be
  well formed.
\<close>

definition deriveAddress :: "string \<Rightarrow> string \<Rightarrow> Address" where
  "deriveAddress namespace naturalKey = (namespace, naturalKey)"

text \<open>
  Modelled from the spec: the storage primitive
  \<^verbatim>\<open>createIfAbsent(address, record) -> ok | alreadyExists\<close> of the external record
  store, which is not in the source files.  It returns the outcome and the store after
  the call.
\<close>

definition createIfAbsent ::
  "Address \<Rightarrow> 'r \<Rightarrow> (Address \<rightharpoonup> 'r) \<Rightarrow> (StoreError + unit) \<times> (Address \<rightharpoonup> 'r)" where
  "createIfAbsent address record_value store =
     (case store address of
        Some existing \<Rightarrow> (Inl AlreadyExists, store)
      | None \<Rightarrow> (Inr (), store(address \<mapsto> record_value)))"

text \<open>
  Modelled from the spec: the \<^verbatim>\<open>createFork\<close> instruction of the on-chain program,
  which is not in the source files.  The fork record is created, if absent, at the
  address derived from the namespace tag \<^verbatim>\<open>fork\<close> (the seed the SDK and the tests
  use) and the fork key.
\<close>

definition createFork ::
  "string \<Rightarrow> 'r \<Rightarrow> (Address \<rightharpoonup> 'r) \<Rightarrow> (StoreError + unit) \<times> (Address \<rightharpoonup> 'r)" where
  "createFork key record_value store =
     createIfAbsent (deriveAddress ''fork'' key) record_value store"

section \<open>Properties of semantic versions\<close>

lemma compareLoop_unfold:
  "compareLoop (a1, a2, a3) (b1, b2, b3) 0 =
     (if a1 < b1 then - 1 else if b1 < a1 then 1
      else if a2 < b2 then - 1 else if b2 < a2 then 1
      else if a3 < b3 then - 1 else if b3 < a3 then 1 else 0)"
proof -
  have three: "compareLoop (a1, a2, a3) (b1, b2, b3) 3 = 0"
    by (subst compareLoop.simps) simp
  have two: "compareLoop (a1, a2, a3) (b1, b2, b3) 2 =
      (if a3 < b3 then - 1 else if b3 < a3 then 1 else 0)"
    by (subst compareLoop.simps) (simp add: three)
  have one: "compareLoop (a1, a2, a3) (b1, b2, b3) 1 =
      (if a2 < b2 then - 1 else if b2 < a2 then 1
       else if a3 < b3 then - 1 else if b3 < a3 then 1 else 0)"
    by (subst compareLoop.simps) (simp add: two)
  show ?thesis
    by (subst compareLoop.simps) (simp add: one)
qed

lemma bitLength_bounds: "2 ^ k \<le> n \<Longrightarrow> n < 2 ^ Suc k \<Longrightarrow> bitLength n = Suc k"
proof (induction k arbitrary: n)
  case 0
  then have "n = 1" by simp
  then show ?case by (simp add: bitLength.simps)
next
  case (Suc k)
  have "2 ^ k \<le> n div 2" using Suc.prems(1) by simp
  moreover have "n div 2 < 2 ^ Suc k" using Suc.prems(2) by simp
  ultimately have "bitLength (n div 2) = Suc k" by (rule Suc.IH)
  moreover have "(0::int) < 2 ^ Suc k" by simp
  then have "\<not> n \<le> 0" using Suc.prems(1) by linarith
  ultimately show ?case by (subst bitLength.simps) simp
qed

lemma jsAdd_exact: "\<bar>a + b\<bar> \<le> 2 ^ 53 \<Longrightarrow> jsAdd a b = a + b"
  by (simp add: jsAdd_def roundToDouble_def)

lemma jsAdd_one_safe: "\<bar>x\<bar> < 2 ^ 53 \<Longrightarrow> jsAdd x 1 = x + 1"
  by (rule jsAdd_exact) simp

lemma jsAdd_one_at_limit: "jsAdd (2 ^ 53) 1 = 2 ^ 53"
proof -
  have "bitLength 9007199254740993 = 54"
    using bitLength_bounds[of 53 9007199254740993] by simp
  then show ?thesis
    by (simp add: jsAdd_def roundToDouble_def Let_def)
qed

text \<open>
  Claim C9, as the code has it.  The comparison is the lexicographic order on (major,
  minor, patch): it returns -1 exactly when the first version is lexicographically
  smaller, 1 when it is larger and 0 when both are equal.  Hence (1,2,3) < (1,3,0) <
  (2,0,0); bumping (1,2,3) by minor gives (1,3,0); and for every version and every part
  whose component in that version is below 2^53 in magnitude, the bumped version
  compares strictly greater than the version it was bumped from.
\<close>

theorem semantic_version_order_and_bump:
  "compareSemanticVersion (a1, a2, a3) (b1, b2, b3) =
     (if a1 < b1 \<or> (a1 = b1 \<and> (a2 < b2 \<or> (a2 = b2 \<and> a3 < b3))) then - 1
      else if b1 < a1 \<or> (b1 = a1 \<and> (b2 < a2 \<or> (b2 = a2 \<and> b3 < a3))) then 1
      else 0)
   \<and> compareSemanticVersion (1, 2, 3) (1, 3, 0) = - 1
   \<and> compareSemanticVersion (1, 3, 0) (2, 0, 0) = - 1
   \<and> compareSemanticVersion (1, 2, 3) (2, 0, 0) = - 1
   \<and> bumpSemanticVersion (1, 2, 3) Minor = (1, 3, 0)
   \<and> (\<bar>partComponent v part\<bar> < 2 ^ 53 \<longrightarrow>
        compareSemanticVersion v (bumpSemanticVersion v part) = - 1
        \<and> compareSemanticVersion (bumpSemanticVersion v part) v = 1)"
proof -
  obtain major minor patch where v: "v = (major, minor, patch)"
    by (cases v) auto
  have lex: "compareSemanticVersion (a1, a2, a3) (b1, b2, b3) =
     (if a1 < b1 \<or> (a1 = b1 \<and> (a2 < b2 \<or> (a2 = b2 \<and> a3 < b3))) then - 1
      else if b1 < a1 \<or> (b1 = a1 \<and> (b2 < a2 \<or> (b2 = a2 \<and> b3 < a3))) then 1
      else 0)"
    unfolding compareSemanticVersion_def compareLoop_unfold by auto
  have ex: "compareSemanticVersion (1, 2, 3) (1, 3, 0) = - 1"
      "compareSemanticVersion (1, 3, 0) (2, 0, 0) = - 1"
      "compareSemanticVersion (1, 2, 3) (2, 0, 0) = - 1"
    unfolding compareSemanticVersion_def compareLoop_unfold by simp_all
  have minor_bump: "bumpSemanticVersion (1, 2, 3) Minor = (1, 3, 0)"
    by (simp add: jsAdd_exact)
  have up: "\<bar>partComponent v part\<bar> < 2 ^ 53 \<longrightarrow>
        compareSemanticVersion v (bumpSemanticVersion v part) = - 1
        \<and> compareSemanticVersion (bumpSemanticVersion v part) v = 1"
    unfolding v compareSemanticVersion_def
    by (cases part) (simp_all add: compareLoop_unfold jsAdd_one_safe)
  from lex ex minor_bump up show ?thesis by (intro conjI)
qed

theorem semantic_version_order_and_bump_witness:
  "\<bar>partComponent (1, 2, 3) Minor\<bar> < 2 ^ 53
   \<and> compareSemanticVersion (1, 2, 3) (bumpSemanticVersion (1, 2, 3) Minor) = - 1
   \<and> compareSemanticVersion (bumpSemanticVersion (1, 2, 3) Minor) (1, 2, 3) = 1
   \<and> bumpSemanticVersion (1, 2, 3) Minor = (1, 3, 0)"
proof -
  have safe: "\<bar>partComponent (1, 2, 3) Minor\<bar> < 2 ^ 53" by simp
  note inst = semantic_version_order_and_bump[of 1 1 2 3 3 0 "(1, 2, 3)" Minor]
  from inst safe have "compareSemanticVersion (1, 2, 3) (bumpSemanticVersion (1, 2, 3) Minor) = - 1"
    "compareSemanticVersion (bumpSemanticVersion (1, 2, 3) Minor) (1, 2, 3) = 1"
    by blast+
  moreover from inst have "bumpSemanticVersion (1, 2, 3) Minor = (1, 3, 0)" by blast
  ultimately show ?thesis using safe by (intro conjI)
qed

text \<open>
  At 2^53 the sum with 1 rounds back to 2^53.  Bumping the patch of (0, 0, 2^53) returns
  the same version, which compares equal, not greater.  Bumping the major of
  (2^53, 5, 0) keeps the major and resets the minor: the result (2^53, 0, 0) compares
  smaller than the version it was bumped from.
\<close>

theorem bumpSemanticVersion_at_limit_counterexample:
  "bumpSemanticVersion (0, 0, 2 ^ 53) Patch = (0, 0, 2 ^ 53)
   \<and> compareSemanticVersion (0, 0, 2 ^ 53) (bumpSemanticVersion (0, 0, 2 ^ 53) Patch) = 0
   \<and> bumpSemanticVersion (2 ^ 53, 5, 0) Major = (2 ^ 53, 0, 0)
   \<and> compareSemanticVersion (2 ^ 53, 5, 0) (bumpSemanticVersion (2 ^ 53, 5, 0) Major) = 1"
proof -
  have p: "bumpSemanticVersion (0, 0, 2 ^ 53) Patch = (0, 0, 2 ^ 53)"
    using jsAdd_one_at_limit by simp
  have m: "bumpSemanticVersion (2 ^ 53, 5, 0) Major = (2 ^ 53, 0, 0)"
    using jsAdd_one_at_limit by simp
  have cp: "compareSemanticVersion (0, 0, 2 ^ 53) (0, 0, 2 ^ 53) = 0"
    unfolding compareSemanticVersion_def compareLoop_unfold by simp
  have cm: "compareSemanticVersion (2 ^ 53, 5, 0) (2 ^ 53, 0, 0) = 1"
    unfolding compareSemanticVersion_def compareLoop_unfold by simp
  from p m cp cm show ?thesis by simp
qed

section \<open>Properties of lifecycle summaries\<close>

lemma applyLifecycleEvent_lastActivityAt:
  "lastActivityAt (applyLifecycleEvent summary event) =
     max (lastActivityAt summary) (timestamp event)"
  by (simp add: applyLifecycleEvent_def Let_def)

lemma applyLifecycleEvents_lastActivityAt:
  "lastActivityAt (applyLifecycleEvents summary events) =
     Max (insert (lastActivityAt summary) (set (map timestamp events)))"
  unfolding applyLifecycleEvents_def
proof (induction events arbitrary: summary)
  case Nil
  show ?case by simp
next
  case (Cons e es)
  have "Max (insert (max (lastActivityAt summary) (timestamp e)) (timestamp ` set es)) =
        Max (insert (lastActivityAt summary) (insert (timestamp e) (timestamp ` set es)))"
  proof (cases "set es = {}")
    case True
    then show ?thesis by simp
  next
    case False
    then show ?thesis by (simp add: max.assoc)
  qed
  then show ?case
    by (simp add: Cons.IH applyLifecycleEvent_lastActivityAt del: Max_insert)
qed

text \<open>
  Claim C8.  Applying one lifecycle event sets lastActivityAt to the maximum of its
  previous value and the event's timestamp.  Hence after any sequence of events it is the
  maximum of the initial value and all timestamps applied, and it is never below the
  value it had before the sequence.
\<close>

theorem lastActivityAt_running_maximum:
  "lastActivityAt (applyLifecycleEvent summary event) =
     max (lastActivityAt summary) (timestamp event)
   \<and> lastActivityAt summary \<le> lastActivityAt (applyLifecycleEvent summary event)
   \<and> lastActivityAt (applyLifecycleEvents summary events) =
     Max (insert (lastActivityAt summary) (set (map timestamp events)))
   \<and> lastActivityAt summary \<le> lastActivityAt (applyLifecycleEvents summary events)"
proof -
  have "lastActivityAt summary \<le> Max (insert (lastActivityAt summary) (set (map timestamp events)))"
    by (rule Max_ge) simp_all
  then show ?thesis
    by (simp add: applyLifecycleEvent_lastActivityAt applyLifecycleEvents_lastActivityAt)
qed

section \<open>Properties of fork lineage\<close>

lemma sortByDepth_sorted: "sorted (map depth (sortByDepth xs))"
  by (simp add: sortByDepth_def)

lemma sortByDepth_mset: "mset (sortByDepth xs) = mset xs"
  by (simp add: sortByDepth_def)

lemma sortByDepth_set: "set (sortByDepth xs) = set xs"
  by (simp add: sortByDepth_def)

lemma sortByDepth_first_is_min:
  assumes "sortByDepth xs = a # rest"
  shows "a \<in> set xs \<and> (\<forall>b\<in>set xs. depth a \<le> depth b)"
proof -
  have s: "sorted (map depth (a # rest))"
    using sortByDepth_sorted[of xs] assms by simp
  have m: "set (a # rest) = set xs"
    using sortByDepth_set[of xs] assms by simp
  show ?thesis using s m by auto
qed

lemma sortByDepth_stable:
  "filter (\<lambda>a. depth a = d) (sortByDepth xs) = filter (\<lambda>a. depth a = d) xs"
  unfolding sortByDepth_def by (rule sort_key_stable)

lemma root_is_head_of_path:
  "rootForkKey (buildForkLineage fork ancestors) = hd (path (buildForkLineage fork ancestors))"
  by (cases "sortByDepth ancestors") (simp_all add: buildForkLineage_def Let_def firstKeyOr_def)

text \<open>
  Claim C6, as the code has it.  The ancestors are sorted ascending by depth by a stable
  sort: the result is a permutation of the input whose depths ascend, and ancestors of
  equal depth keep their input order.  path is the sorted ancestors' keys followed by
  the fork's own key.  rootForkKey is the first key of path: the fork's own key when
  there are no ancestors, and otherwise the key of the first ancestor in the sorted
  order, an ancestor of minimum depth.  That ancestor has depth 0 whenever some ancestor
  has depth 0 and none has a negative depth.  For ancestors [root, A] (in either order)
  with depths 0 and 1, path is [root.key, A.key, fork.key] and rootForkKey is root.key.
\<close>

theorem buildForkLineage_path_and_root:
  "path (buildForkLineage fork ancestors) = map forkKey (sortByDepth ancestors) @ [forkKey fork]
   \<and> sorted (map depth (sortByDepth ancestors))
   \<and> mset (sortByDepth ancestors) = mset ancestors
   \<and> filter (\<lambda>a. depth a = d) (sortByDepth ancestors) = filter (\<lambda>a. depth a = d) ancestors
   \<and> rootForkKey (buildForkLineage fork ancestors) = hd (path (buildForkLineage fork ancestors))
   \<and> rootForkKey (buildForkLineage fork []) = forkKey fork
   \<and> (ancestors \<noteq> [] \<longrightarrow>
        rootForkKey (buildForkLineage fork ancestors) = forkKey (hd (sortByDepth ancestors))
        \<and> hd (sortByDepth ancestors) \<in> set ancestors
        \<and> (\<forall>b\<in>set ancestors. depth (hd (sortByDepth ancestors)) \<le> depth b))
   \<and> ((\<exists>a\<in>set ancestors. depth a = 0) \<and> (\<forall>b\<in>set ancestors. 0 \<le> depth b) \<longrightarrow>
        depth (hd (sortByDepth ancestors)) = 0)
   \<and> (depth r = 0 \<and> depth x = 1 \<longrightarrow>
        buildForkLineage fork [r, x] =
          \<lparr>rootForkKey = forkKey r, path = [forkKey r, forkKey x, forkKey fork]\<rparr>
        \<and> buildForkLineage fork [x, r] = buildForkLineage fork [r, x])"
proof -
  have p: "path (buildForkLineage fork ancestors) =
      map forkKey (sortByDepth ancestors) @ [forkKey fork]"
    by (simp add: buildForkLineage_def Let_def)
  have e: "rootForkKey (buildForkLineage fork []) = forkKey fork"
    by (simp add: buildForkLineage_def Let_def sortByDepth_def firstKeyOr_def)
  have first: "ancestors \<noteq> [] \<Longrightarrow>
        rootForkKey (buildForkLineage fork ancestors) = forkKey (hd (sortByDepth ancestors))
        \<and> hd (sortByDepth ancestors) \<in> set ancestors
        \<and> (\<forall>b\<in>set ancestors. depth (hd (sortByDepth ancestors)) \<le> depth b)"
  proof -
    assume ne: "ancestors \<noteq> []"
    have "sortByDepth ancestors \<noteq> []"
      using ne sortByDepth_mset[of ancestors] by (metis mset_zero_iff)
    then obtain a rest where ar: "sortByDepth ancestors = a # rest"
      by (cases "sortByDepth ancestors") auto
    have "rootForkKey (buildForkLineage fork ancestors) = forkKey a"
      by (simp add: buildForkLineage_def Let_def firstKeyOr_def ar)
    then show ?thesis
      using sortByDepth_first_is_min[OF ar] by (simp add: ar)
  qed
  have m: "ancestors \<noteq> [] \<longrightarrow>
        rootForkKey (buildForkLineage fork ancestors) = forkKey (hd (sortByDepth ancestors))
        \<and> hd (sortByDepth ancestors) \<in> set ancestors
        \<and> (\<forall>b\<in>set ancestors. depth (hd (sortByDepth ancestors)) \<le> depth b)"
    using first by blast
  have z: "(\<exists>a\<in>set ancestors. depth a = 0) \<and> (\<forall>b\<in>set ancestors. 0 \<le> depth b) \<longrightarrow>
        depth (hd (sortByDepth ancestors)) = 0"
  proof
    assume h: "(\<exists>a\<in>set ancestors. depth a = 0) \<and> (\<forall>b\<in>set ancestors. 0 \<le> depth b)"
    then have "ancestors \<noteq> []" by auto
    from first[OF this] have a: "hd (sortByDepth ancestors) \<in> set ancestors"
      "\<forall>b\<in>set ancestors. depth (hd (sortByDepth ancestors)) \<le> depth b" by simp_all
    from h obtain z where "z \<in> set ancestors" "depth z = 0" by blast
    with a(2) have "depth (hd (sortByDepth ancestors)) \<le> 0" by force
    moreover have "0 \<le> depth (hd (sortByDepth ancestors))" using h a(1) by blast
    ultimately show "depth (hd (sortByDepth ancestors)) = 0" by simp
  qed
  have c: "depth r = 0 \<and> depth x = 1 \<longrightarrow>
        buildForkLineage fork [r, x] =
          \<lparr>rootForkKey = forkKey r, path = [forkKey r, forkKey x, forkKey fork]\<rparr>
        \<and> buildForkLineage fork [x, r] = buildForkLineage fork [r, x]"
    by (simp add: buildForkLineage_def Let_def sortByDepth_def firstKeyOr_def)
  from p sortByDepth_sorted sortByDepth_mset sortByDepth_stable root_is_head_of_path e m z c
  show ?thesis by (intro conjI)
qed

theorem buildForkLineage_chain_witness:
  "buildForkLineage (mkFork ''B'' 2) [mkFork ''root'' 0, mkFork ''A'' 1] =
     \<lparr>rootForkKey = ''root'', path = [''root'', ''A'', ''B'']\<rparr>
   \<and> depth (hd (sortByDepth [mkFork ''A'' 1, mkFork ''root'' 0])) = 0
   \<and> rootForkKey (buildForkLineage (mkFork ''B'' 2) [mkFork ''A'' 1, mkFork ''root'' 0]) = ''root''
   \<and> path (buildForkLineage (mkFork ''C'' 2) [mkFork ''k5'' 1, mkFork ''k8'' 1, mkFork ''k0'' 0]) =
       [''k0'', ''k5'', ''k8'', ''C'']
   \<and> rootForkKey (buildForkLineage (mkFork ''C'' 2) [mkFork ''k5'' 1, mkFork ''k8'' 1]) = ''k5''
   \<and> rootForkKey (buildForkLineage (mkFork ''C'' 2) [mkFork ''k8'' 1, mkFork ''k5'' 1]) = ''k8''"
proof -
  have d: "depth (mkFork ''root'' 0) = 0 \<and> depth (mkFork ''A'' 1) = 1"
    by (simp add: mkFork_def)
  have k: "forkKey (mkFork ''root'' 0) = ''root''" "forkKey (mkFork ''A'' 1) = ''A''"
    "forkKey (mkFork ''B'' 2) = ''B''"
    by (simp_all add: mkFork_def)
  note chain = buildForkLineage_path_and_root
    [of "mkFork ''B'' 2" "[mkFork ''root'' 0, mkFork ''A'' 1]" 0 "mkFork ''root'' 0" "mkFork ''A'' 1"]
  from chain d have "buildForkLineage (mkFork ''B'' 2) [mkFork ''root'' 0, mkFork ''A'' 1] =
      \<lparr>rootForkKey = forkKey (mkFork ''root'' 0),
       path = [forkKey (mkFork ''root'' 0), forkKey (mkFork ''A'' 1), forkKey (mkFork ''B'' 2)]\<rparr>"
    by blast
  then have w1: "buildForkLineage (mkFork ''B'' 2) [mkFork ''root'' 0, mkFork ''A'' 1] =
     \<lparr>rootForkKey = ''root'', path = [''root'', ''A'', ''B'']\<rparr>"
    by (simp only: k)
  have h: "(\<exists>a\<in>set [mkFork ''A'' 1, mkFork ''root'' 0]. depth a = 0)
      \<and> (\<forall>b\<in>set [mkFork ''A'' 1, mkFork ''root'' 0]. 0 \<le> depth b)"
    by (simp add: mkFork_def)
  have ne: "[mkFork ''A'' 1, mkFork ''root'' 0] \<noteq> []" by simp
  note swapped = buildForkLineage_path_and_root
    [of "mkFork ''B'' 2" "[mkFork ''A'' 1, mkFork ''root'' 0]" 0 "mkFork ''root'' 0" "mkFork ''A'' 1"]
  from swapped h have w2: "depth (hd (sortByDepth [mkFork ''A'' 1, mkFork ''root'' 0])) = 0"
    by blast
  from swapped ne have "rootForkKey (buildForkLineage (mkFork ''B'' 2) [mkFork ''A'' 1, mkFork ''root'' 0])
      = forkKey (hd (sortByDepth [mkFork ''A'' 1, mkFork ''root'' 0]))"
    by blast
  then have w3: "rootForkKey (buildForkLineage (mkFork ''B'' 2) [mkFork ''A'' 1, mkFork ''root'' 0]) = ''root''"
    by (simp add: sortByDepth_def mkFork_def)
  note ties = buildForkLineage_path_and_root
    [of "mkFork ''C'' 2" "[mkFork ''k5'' 1, mkFork ''k8'' 1, mkFork ''k0'' 0]" 1]
  from ties have "path (buildForkLineage (mkFork ''C'' 2) [mkFork ''k5'' 1, mkFork ''k8'' 1, mkFork ''k0'' 0]) =
      map forkKey (sortByDepth [mkFork ''k5'' 1, mkFork ''k8'' 1, mkFork ''k0'' 0]) @ [forkKey (mkFork ''C'' 2)]"
    by blast
  then have w4: "path (buildForkLineage (mkFork ''C'' 2) [mkFork ''k5'' 1, mkFork ''k8'' 1, mkFork ''k0'' 0]) =
       [''k0'', ''k5'', ''k8'', ''C'']"
    by (simp add: sortByDepth_def mkFork_def)
  note tie58 = buildForkLineage_path_and_root
    [of "mkFork ''C'' 2" "[mkFork ''k5'' 1, mkFork ''k8'' 1]" 1]
  have "[mkFork ''k5'' 1, mkFork ''k8'' 1] \<noteq> []" by simp
  with tie58 have "rootForkKey (buildForkLineage (mkFork ''C'' 2) [mkFork ''k5'' 1, mkFork ''k8'' 1])
      = forkKey (hd (sortByDepth [mkFork ''k5'' 1, mkFork ''k8'' 1]))"
    by blast
  then have w5: "rootForkKey (buildForkLineage (mkFork ''C'' 2) [mkFork ''k5'' 1, mkFork ''k8'' 1]) = ''k5''"
    by (simp add: sortByDepth_def mkFork_def)
  note tie85 = buildForkLineage_path_and_root
    [of "mkFork ''C'' 2" "[mkFork ''k8'' 1, mkFork ''k5'' 1]" 1]
  have "[mkFork ''k8'' 1, mkFork ''k5'' 1] \<noteq> []" by simp
  with tie85 have "rootForkKey (buildForkLineage (mkFork ''C'' 2) [mkFork ''k8'' 1, mkFork ''k5'' 1])
      = forkKey (hd (sortByDepth [mkFork ''k8'' 1, mkFork ''k5'' 1]))"
    by blast
  then have w6: "rootForkKey (buildForkLineage (mkFork ''C'' 2) [mkFork ''k8'' 1, mkFork ''k5'' 1]) = ''k8''"
    by (simp add: sortByDepth_def mkFork_def)
  from w1 w2 w3 w4 w5 w6 show ?thesis by (intro conjI)
qed

text \<open>
  With the single ancestor A of depth 1 for a fork B of depth 2, rootForkKey is A's key:
  no ancestor has depth 0, the list of ancestors is not empty, and the result is not the
  fork's own key.
\<close>

theorem buildForkLineage_root_counterexample:
  "rootForkKey (buildForkLineage (mkFork ''B'' 2) [mkFork ''A'' 1]) = ''A''
   \<and> map depth [mkFork ''A'' 1] = [1]
   \<and> rootForkKey (buildForkLineage (mkFork ''B'' 2) [mkFork ''A'' 1]) \<noteq> forkKey (mkFork ''B'' 2)"
  by (simp add: buildForkLineage_def Let_def sortByDepth_def firstKeyOr_def mkFork_def)

section \<open>Properties of tag normalization\<close>

lemma toLowerChar_idem: "toLowerChar (toLowerChar c) = toLowerChar c"
  unfolding toLowerChar_def Let_def
  by (auto simp: of_char_of)

lemma isWhiteSpace_toLowerChar: "isWhiteSpace (toLowerChar c) = isWhiteSpace c"
  unfolding toLowerChar_def isWhiteSpace_def Let_def
  by (auto simp: of_char_of)

lemma trim_ends:
  assumes "trim s \<noteq> []"
  shows "\<not> isWhiteSpace (hd (trim s)) \<and> \<not> isWhiteSpace (last (trim s))"
proof -
  define u where "u = dropWhile isWhiteSpace s"
  define v where "v = dropWhile isWhiteSpace (rev u)"
  have t: "trim s = rev v" by (simp add: trim_def u_def v_def)
  have v: "v \<noteq> []" using assms t by simp
  then have hv: "\<not> isWhiteSpace (hd v)" unfolding v_def by (rule hd_dropWhile)
  have u: "u \<noteq> []" using v unfolding v_def by auto
  then have hu: "\<not> isWhiteSpace (hd u)" unfolding u_def by (rule hd_dropWhile)
  obtain x where x: "x \<in> set (rev u)" "\<not> isWhiteSpace x"
    using v unfolding v_def by (auto simp: dropWhile_eq_Nil_conv)
  have "last v = last (rev u)" unfolding v_def using x by (rule dropWhile_last)
  then have lv: "last v = hd u" using u by (simp add: last_rev)
  show ?thesis using t v hv hu lv by (simp add: hd_rev last_rev)
qed

lemma trim_fixed:
  assumes "s \<noteq> []" "\<not> isWhiteSpace (hd s)" "\<not> isWhiteSpace (last s)"
  shows "trim s = s"
proof -
  have a: "dropWhile isWhiteSpace s = s" using assms by (cases s) auto
  have "rev s \<noteq> []" "\<not> isWhiteSpace (hd (rev s))" using assms by (simp_all add: hd_rev)
  then have b: "dropWhile isWhiteSpace (rev s) = rev s" by (cases "rev s") auto
  show ?thesis by (simp add: trim_def a b)
qed

lemma normalized_tag:
  assumes "t \<in> set (normalizeRepoTags tagsOpt)"
  shows "t \<noteq> [] \<and> trim t = t \<and> toLowerCase t = t"
proof -
  obtain ts s where s: "tagsOpt = Some ts" "s \<in> set ts" "trim s \<noteq> []" "t = toLowerCase (trim s)"
    using assms by (auto simp: normalizeRepoTags_def split: option.splits if_splits)
  have ne: "t \<noteq> []" using s by (simp add: toLowerCase_def)
  have ends: "\<not> isWhiteSpace (hd (trim s))" "\<not> isWhiteSpace (last (trim s))"
    using trim_ends[OF s(3)] by simp_all
  have "\<not> isWhiteSpace (hd t)" "\<not> isWhiteSpace (last t)"
    using s(3) ends unfolding s(4) toLowerCase_def
    by (simp_all add: hd_map last_map isWhiteSpace_toLowerChar)
  then have tr: "trim t = t" using ne by (simp add: trim_fixed)
  have lo: "toLowerCase t = t" unfolding s(4) toLowerCase_def by (simp add: toLowerChar_idem)
  show ?thesis using ne tr lo by simp
qed

text \<open>
  Claim C7, as the code has it.  Every tag returned by the normalization, and so every
  tag of a projected repository record, is non-empty, trimmed (trimming it again changes
  nothing) and lower-cased (lower-casing it again changes nothing).  The result keeps the
  input order and has one tag for each input tag that is not blank: equal tags are not
  merged.
\<close>

theorem normalizeRepoTags_trimmed_lowercase_nonempty:
  "(\<forall>t\<in>set (normalizeRepoTags tagsOpt). t \<noteq> [] \<and> trim t = t \<and> toLowerCase t = t)
   \<and> (\<forall>t\<in>set (projectRepoTags raw). t \<noteq> [] \<and> trim t = t \<and> toLowerCase t = t)
   \<and> normalizeRepoTags (Some ts) = map toLowerCase (filter (\<lambda>tag. tag \<noteq> []) (map trim ts))
   \<and> length (normalizeRepoTags (Some ts)) = length (filter (\<lambda>tag. trim tag \<noteq> []) ts)"
proof -
  have a: "\<forall>t\<in>set (normalizeRepoTags tagsOpt). t \<noteq> [] \<and> trim t = t \<and> toLowerCase t = t"
    using normalized_tag by blast
  have b: "\<forall>t\<in>set (projectRepoTags raw). t \<noteq> [] \<and> trim t = t \<and> toLowerCase t = t"
    unfolding projectRepoTags_def using normalized_tag by blast
  have c: "normalizeRepoTags (Some ts) = map toLowerCase (filter (\<lambda>tag. tag \<noteq> []) (map trim ts))"
    by (cases ts) (simp_all add: normalizeRepoTags_def)
  have d: "length (normalizeRepoTags (Some ts)) = length (filter (\<lambda>tag. trim tag \<noteq> []) ts)"
    unfolding c by (simp add: filter_map comp_def)
  show ?thesis using a b c d by blast
qed

theorem normalizeRepoTags_witness:
  "''fork'' \<in> set (projectRepoTags (TagsString ''Unit09, Fork ,,ROOT''))
   \<and> ''fork'' \<noteq> [] \<and> trim ''fork'' = ''fork'' \<and> toLowerCase ''fork'' = ''fork''
   \<and> length (normalizeRepoTags (Some ['' A'', ''a '', ''  ''])) = 2"
proof -
  have "projectRepoTags (TagsString ''Unit09, Fork ,,ROOT'') = [''unit09'', ''fork'', ''root'']"
    by (simp add: projectRepoTags_def normalizeRepoTags_def trim_def isWhiteSpace_def
        toLowerCase_def toLowerChar_def char_of_eq_iff)
  then have m: "''fork'' \<in> set (projectRepoTags (TagsString ''Unit09, Fork ,,ROOT''))"
    by simp
  have n: "length (filter (\<lambda>tag. trim tag \<noteq> []) ['' A'', ''a '', ''  '']) = 2"
    by (simp add: trim_def isWhiteSpace_def)
  note inst = normalizeRepoTags_trimmed_lowercase_nonempty
      [of "Some ['' A'', ''a '', ''  '']" "TagsString ''Unit09, Fork ,,ROOT''"
          "['' A'', ''a '', ''  '']"]
  from inst have every:
    "\<forall>t\<in>set (projectRepoTags (TagsString ''Unit09, Fork ,,ROOT'')).
       t \<noteq> [] \<and> trim t = t \<and> toLowerCase t = t"
    by (elim conjE)
  from inst have len: "length (normalizeRepoTags (Some ['' A'', ''a '', ''  ''])) =
      length (filter (\<lambda>tag. trim tag \<noteq> []) ['' A'', ''a '', ''  ''])"
    by (elim conjE)
  from every m have "''fork'' \<noteq> [] \<and> trim ''fork'' = ''fork'' \<and> toLowerCase ''fork'' = ''fork''"
    by (rule bspec)
  with m len n show ?thesis by presburger
qed

text \<open>
  Two equal tags, and two tags that differ only in case and surrounding blanks, both
  stay in the output twice.
\<close>

theorem normalizeRepoTags_duplicates_counterexample:
  "normalizeRepoTags (Some [''a'', ''a'']) = [''a'', ''a'']
   \<and> normalizeRepoTags (Some ['' A'', ''a '']) = [''a'', ''a'']
   \<and> \<not> distinct (normalizeRepoTags (Some [''a'', ''a'']))"
  by (simp add: normalizeRepoTags_def trim_def isWhiteSpace_def toLowerCase_def
      toLowerChar_def char_of_eq_iff)

section \<open>Properties of the JSON form of the metrics\<close>

lemma digitValue_digitChar: "d < 10 \<Longrightarrow> digitValue (digitChar d) = Some d"
  by (simp add: digitValue_def digitChar_def Let_def of_char_of)

lemma of_char_digitChar: "d < 10 \<Longrightarrow> (of_char (digitChar d) :: nat) = 48 + d"
  by (simp add: digitChar_def of_char_of)

lemma digitChar_not_space: "d < 10 \<Longrightarrow> \<not> isWhiteSpace (digitChar d)"
  by (simp add: isWhiteSpace_def Let_def of_char_digitChar)

lemma natToDigits_small: "n < 10 \<Longrightarrow> natToDigits n = [digitChar n]"
  by (subst natToDigits.simps) simp

lemma natToDigits_big:
  "\<not> n < 10 \<Longrightarrow> natToDigits n = natToDigits (n div 10) @ [digitChar (n mod 10)]"
  by (subst natToDigits.simps) simp

lemma parseDigits_snoc:
  "parseDigits base acc (cs @ [c]) =
     (case parseDigits base acc cs of
        None \<Rightarrow> None
      | Some v \<Rightarrow> (case digitValue c of
                     None \<Rightarrow> None
                   | Some d \<Rightarrow> if d < base then Some (v * base + d) else None))"
  by (induction cs arbitrary: acc) (auto split: option.splits)

lemma parseDigits_natToDigits: "parseDigits 10 0 (natToDigits n) = Some n"
proof (induction n rule: natToDigits.induct)
  case (1 n)
  show ?case
  proof (cases "n < 10")
    case True
    then show ?thesis by (simp add: natToDigits_small digitValue_digitChar)
  next
    case False
    then have ih: "parseDigits 10 0 (natToDigits (n div 10)) = Some (n div 10)"
      using "1.IH" by simp
    have unfold: "natToDigits n = natToDigits (n div 10) @ [digitChar (n mod 10)]"
      using False by (rule natToDigits_big)
    show ?thesis
      unfolding unfold parseDigits_snoc ih
      by (simp add: digitValue_digitChar)
  qed
qed

lemma natToDigits_nonempty: "natToDigits n \<noteq> []"
  by (cases "n < 10") (simp_all add: natToDigits_small natToDigits_big)

lemma natToDigits_chars: "c \<in> set (natToDigits n) \<Longrightarrow> \<exists>d<10. c = digitChar d"
proof (induction n rule: natToDigits.induct)
  case (1 n)
  show ?case
  proof (cases "n < 10")
    case True
    with "1.prems" show ?thesis by (auto simp: natToDigits_small)
  next
    case False
    have unfold: "natToDigits n = natToDigits (n div 10) @ [digitChar (n mod 10)]"
      using False by (rule natToDigits_big)
    from "1.prems" unfold
    consider "c \<in> set (natToDigits (n div 10))" | "c = digitChar (n mod 10)"
      by auto
    then show ?thesis
    proof cases
      case 1
      then show ?thesis using "1.IH" False by simp
    next
      case 2
      have "n mod 10 < 10" by simp
      with 2 show ?thesis by blast
    qed
  qed
qed

lemma digitsValue_natToDigits: "digitsValue 10 (natToDigits n) = Some n"
  by (simp add: digitsValue_def natToDigits_nonempty parseDigits_natToDigits)

lemma digitChar_neq:
  assumes "d < 10" "(of_char c :: nat) < 48 \<or> 57 < (of_char c :: nat)"
  shows "digitChar d \<noteq> c"
proof
  assume "digitChar d = c"
  then have "(of_char (digitChar d) :: nat) = of_char c" by simp
  then have "48 + d = (of_char c :: nat)" using assms(1) by (simp add: of_char_digitChar)
  with assms show False by linarith
qed

lemma digit_not_letter_or_sign:
  assumes "d < 10"
  shows "digitChar d \<noteq> CHR ''x'' \<and> digitChar d \<noteq> CHR ''X'' \<and> digitChar d \<noteq> CHR ''o''
    \<and> digitChar d \<noteq> CHR ''O'' \<and> digitChar d \<noteq> CHR ''b'' \<and> digitChar d \<noteq> CHR ''B''
    \<and> digitChar d \<noteq> CHR ''+'' \<and> digitChar d \<noteq> CHR ''-''"
proof -
  have "digitChar d \<noteq> CHR ''x''" using assms by (rule digitChar_neq) simp
  moreover have "digitChar d \<noteq> CHR ''X''" using assms by (rule digitChar_neq) simp
  moreover have "digitChar d \<noteq> CHR ''o''" using assms by (rule digitChar_neq) simp
  moreover have "digitChar d \<noteq> CHR ''O''" using assms by (rule digitChar_neq) simp
  moreover have "digitChar d \<noteq> CHR ''b''" using assms by (rule digitChar_neq) simp
  moreover have "digitChar d \<noteq> CHR ''B''" using assms by (rule digitChar_neq) simp
  moreover have "digitChar d \<noteq> CHR ''+''" using assms by (rule digitChar_neq) simp
  moreover have "digitChar d \<noteq> CHR ''-''" using assms by (rule digitChar_neq) simp
  ultimately show ?thesis by blast
qed

lemma hd_natToDigits: "\<exists>d<10. hd (natToDigits n) = digitChar d"
  using natToDigits_chars[of "hd (natToDigits n)" n] natToDigits_nonempty[of n]
  by simp

lemma last_natToDigits: "\<exists>d<10. last (natToDigits n) = digitChar d"
  using natToDigits_chars[of "last (natToDigits n)" n] natToDigits_nonempty[of n]
  by simp

lemma nonDecimalBase_natToDigits: "nonDecimalBase (natToDigits n) = None"
proof (cases "natToDigits n")
  case Nil
  then show ?thesis by (simp add: nonDecimalBase_def)
next
  case outer: (Cons c0 rest)
  show ?thesis
  proof (cases rest)
    case Nil
    with outer show ?thesis by (simp add: nonDecimalBase_def)
  next
    case (Cons c1 rest')
    with outer have "c1 \<in> set (natToDigits n)" by simp
    then obtain d where d: "d < 10" "c1 = digitChar d"
      using natToDigits_chars by blast
    have "nonDecimalBase (c0 # digitChar d # rest') = None"
      using digit_not_letter_or_sign[OF d(1)] by (simp add: nonDecimalBase_def)
    with Cons outer d show ?thesis by simp
  qed
qed

lemma signedDecimal_natToDigits: "signedDecimal (natToDigits n) = Some (int n)"
proof -
  obtain c ds where cd: "natToDigits n = c # ds"
    using natToDigits_nonempty[of n] by (cases "natToDigits n") auto
  obtain d where d: "d < 10" "c = digitChar d"
    using hd_natToDigits[of n] cd by auto
  have "signedDecimal (digitChar d # ds) = map_option int (digitsValue 10 (digitChar d # ds))"
    using digit_not_letter_or_sign[OF d(1)] by (simp add: signedDecimal_def)
  then show ?thesis
    using digitsValue_natToDigits[of n] cd d by simp
qed

lemma trim_natToDigits: "trim (natToDigits n) = natToDigits n"
proof (rule trim_fixed)
  show "natToDigits n \<noteq> []" by (rule natToDigits_nonempty)
  show "\<not> isWhiteSpace (hd (natToDigits n))"
    using hd_natToDigits[of n] digitChar_not_space by auto
  show "\<not> isWhiteSpace (last (natToDigits n))"
    using last_natToDigits[of n] digitChar_not_space by auto
qed

lemma trim_minus_natToDigits: "trim (CHR ''-'' # natToDigits n) = CHR ''-'' # natToDigits n"
proof (rule trim_fixed)
  show "CHR ''-'' # natToDigits n \<noteq> []" by simp
  show "\<not> isWhiteSpace (hd (CHR ''-'' # natToDigits n))"
    by (simp add: isWhiteSpace_def)
  show "\<not> isWhiteSpace (last (CHR ''-'' # natToDigits n))"
    using last_natToDigits[of n] digitChar_not_space natToDigits_nonempty[of n] by auto
qed

lemma BigInt_bigintToString: "BigInt (bigintToString n) = Inr n"
proof (cases "n < 0")
  case True
  have nd: "nonDecimalBase (CHR ''-'' # natToDigits (nat (- n))) = None"
    by (simp add: nonDecimalBase_def split: list.splits)
  have sd: "signedDecimal (CHR ''-'' # natToDigits (nat (- n))) = Some (- int (nat (- n)))"
    by (simp add: signedDecimal_def digitsValue_natToDigits)
  have "StringToBigInt (CHR ''-'' # natToDigits (nat (- n))) = Some (- int (nat (- n)))"
    unfolding StringToBigInt_def trim_minus_natToDigits Let_def nd sd by simp
  with True show ?thesis
    by (simp add: BigInt_def bigintToString_def)
next
  case False
  have "StringToBigInt (natToDigits (nat n)) = Some (int (nat n))"
    unfolding StringToBigInt_def trim_natToDigits Let_def
      nonDecimalBase_natToDigits signedDecimal_natToDigits
    by (simp add: natToDigits_nonempty)
  with False show ?thesis
    by (simp add: BigInt_def bigintToString_def)
qed

text \<open>
  Claim C10.  Writing a snapshot's six counters as decimal strings and reading them
  back succeeds and returns the snapshot: the round trip is the identity, for every
  integer value of every counter.
\<close>

theorem globalMetrics_json_roundtrip:
  "globalMetricsFromJson (globalMetricsToJson s) = Inr s"
  by (simp add: globalMetricsFromJson_def globalMetricsToJson_def BigInt_bigintToString)

section \<open>Properties of the job queue\<close>









lemma markCompleted_Some:
  assumes "ref < length (jobs q)"
  shows "markCompleted ref result now q =
     Some (q\<lparr>jobs := (jobs q)[ref := (jobs q ! ref)\<lparr>completedAt := Some now\<rparr>],
             results := (results q)(job_id (jobs q ! ref) \<mapsto> result)\<rparr>)"
  using assms by (simp add: markCompleted_def)

text \<open>
  Claim C4, as the code has it.  markCompleted(job, result) sets the job's completedAt
  to the clock reading of the call and stores the result under the job's id.  A second
  call with the same job and result leaves the stored results as they were and changes
  the job only in completedAt, which becomes the clock reading of the second call: the
  state after both calls is the state one call at the second reading gives, and it
  equals the state after the first call exactly when both calls read the same time.
\<close>

theorem markCompleted_twice:
  assumes "ref < length (jobs q)"
  shows "\<exists>q1 q2. markCompleted ref result t1 q = Some q1
    \<and> markCompleted ref result t2 q1 = Some q2
    \<and> completedAt (jobs q1 ! ref) = Some t1
    \<and> getJobResult (job_id (jobs q ! ref)) q1 = Some result
    \<and> results q2 = results q1
    \<and> jobs q2 = (jobs q1)[ref := (jobs q1 ! ref)\<lparr>completedAt := Some t2\<rparr>]
    \<and> completedAt (jobs q2 ! ref) = Some t2
    \<and> markCompleted ref result t2 q = Some q2
    \<and> (q2 = q1) = (t2 = t1)"
proof -
  define q1 where "q1 = q\<lparr>jobs := (jobs q)[ref := (jobs q ! ref)\<lparr>completedAt := Some t1\<rparr>],
             results := (results q)(job_id (jobs q ! ref) \<mapsto> result)\<rparr>"
  define q2 where "q2 = q1\<lparr>jobs := (jobs q1)[ref := (jobs q1 ! ref)\<lparr>completedAt := Some t2\<rparr>],
             results := (results q1)(job_id (jobs q1 ! ref) \<mapsto> result)\<rparr>"
  have m1: "markCompleted ref result t1 q = Some q1"
    unfolding q1_def using assms by (rule markCompleted_Some)
  have len1: "ref < length (jobs q1)" using assms by (simp add: q1_def)
  have m2: "markCompleted ref result t2 q1 = Some q2"
    unfolding q2_def using len1 by (rule markCompleted_Some)
  have id1: "job_id (jobs q1 ! ref) = job_id (jobs q ! ref)"
    using assms by (simp add: q1_def)
  have c1: "completedAt (jobs q1 ! ref) = Some t1"
    using assms by (simp add: q1_def)
  have g1: "getJobResult (job_id (jobs q ! ref)) q1 = Some result"
    by (simp add: getJobResult_def q1_def)
  have r2: "results q2 = results q1"
    by (simp add: q2_def id1) (simp add: q1_def)
  have j2: "jobs q2 = (jobs q1)[ref := (jobs q1 ! ref)\<lparr>completedAt := Some t2\<rparr>]"
    by (simp add: q2_def)
  have c2: "completedAt (jobs q2 ! ref) = Some t2"
    using len1 by (simp add: j2)
  have direct: "markCompleted ref result t2 q = Some q2"
    using assms by (simp add: markCompleted_def q2_def q1_def)
  have same: "(q2 = q1) = (t2 = t1)"
  proof
    assume "q2 = q1"
    with c1 c2 show "t2 = t1" by simp
  next
    assume "t2 = t1"
    then show "q2 = q1"
      using assms by (simp add: q2_def q1_def)
  qed
  from m1 m2 c1 g1 r2 j2 c2 direct same show ?thesis by blast
qed

theorem markCompleted_twice_witness:
  "0 < length (jobs oneJobQueue)
   \<and> (\<exists>q1 q2. markCompleted 0 sampleResult 5000 oneJobQueue = Some q1
        \<and> markCompleted 0 sampleResult 6000 q1 = Some q2
        \<and> completedAt (jobs q1 ! 0) = Some 5000
        \<and> completedAt (jobs q2 ! 0) = Some 6000
        \<and> results q2 = results q1)"
proof -
  have p: "0 < length (jobs oneJobQueue)"
    by (simp add: oneJobQueue_def enqueue_def emptyQueue_def Let_def)
  from markCompleted_twice[OF p, of sampleResult 5000 6000] p
  show ?thesis by blast
qed

text \<open>
  The same job is completed with the same result at clock reading 5000 and again at
  6000: after the first call its completedAt is 5000, after the second it is 6000, so
  the job record is not what it was after the first call.
\<close>

theorem markCompleted_not_idempotent_counterexample:
  "map_option completedAt
     (Option.bind (markCompleted 0 sampleResult 5000 oneJobQueue) (jobAt 0)) = Some (Some 5000)
   \<and> map_option completedAt
     (Option.bind
        (Option.bind (markCompleted 0 sampleResult 5000 oneJobQueue)
           (markCompleted 0 sampleResult 6000))
        (jobAt 0)) = Some (Some 6000)
   \<and> Option.bind (markCompleted 0 sampleResult 5000 oneJobQueue)
        (markCompleted 0 sampleResult 6000)
      \<noteq> markCompleted 0 sampleResult 5000 oneJobQueue"
proof -
  have one: "markCompleted 0 sampleResult 5000 oneJobQueue =
      Some (oneJobQueue\<lparr>jobs := (jobs oneJobQueue)[0 := (jobs oneJobQueue ! 0)\<lparr>completedAt := Some 5000\<rparr>],
             results := (results oneJobQueue)(job_id (jobs oneJobQueue ! 0) \<mapsto> sampleResult)\<rparr>)"
    by (rule markCompleted_Some) (simp add: oneJobQueue_def enqueue_def emptyQueue_def Let_def)
  have len: "length (jobs oneJobQueue) = 1"
    by (simp add: oneJobQueue_def enqueue_def emptyQueue_def Let_def)
  have a: "map_option completedAt
     (Option.bind (markCompleted 0 sampleResult 5000 oneJobQueue) (jobAt 0)) = Some (Some 5000)"
    by (simp add: one jobAt_def len)
  have b: "map_option completedAt
     (Option.bind
        (Option.bind (markCompleted 0 sampleResult 5000 oneJobQueue)
           (markCompleted 0 sampleResult 6000))
        (jobAt 0)) = Some (Some 6000)"
    by (simp add: one jobAt_def len markCompleted_def)
  have c: "Option.bind (markCompleted 0 sampleResult 5000 oneJobQueue)
        (markCompleted 0 sampleResult 6000)
      \<noteq> markCompleted 0 sampleResult 5000 oneJobQueue"
  proof
    assume eq: "Option.bind (markCompleted 0 sampleResult 5000 oneJobQueue)
        (markCompleted 0 sampleResult 6000)
      = markCompleted 0 sampleResult 5000 oneJobQueue"
    from b have "map_option completedAt
       (Option.bind (markCompleted 0 sampleResult 5000 oneJobQueue) (jobAt 0)) = Some (Some 6000)"
      unfolding eq .
    with a show False by simp
  qed
  from a b c show ?thesis by (intro conjI)
qed

section \<open>Properties of the worker loop\<close>

lemma tick_at_ceiling:
  "maxConcurrentJobs config \<le> activeJobs w \<Longrightarrow> tick config hasHandler now w = w"
  by (simp add: tick_def)

lemma tick_cases:
  "tick config hasHandler now w = w
   \<or> (\<exists>ref. activeJobs w < maxConcurrentJobs config
         \<and> fst (next_job (queue w)) = Some ref
         \<and> hasHandler (job_type (jobs (queue w) ! ref))
         \<and> tick config hasHandler now w =
             w\<lparr>queue := (queue w)\<lparr>jobs := (jobs (queue w))
                    [ref := (jobs (queue w) ! ref)\<lparr>startedAt := Some now\<rparr>]\<rparr>,
               activeJobs := activeJobs w + 1,
               jobsStarted := jobsStarted w + 1,
               activeJobsGauge := activeJobs w + 1,
               inFlight := inFlight w @ [ref]\<rparr>)"
  by (auto simp: tick_def Let_def split: option.splits)

lemma filter_update_length:
  "length (filter P (xs[i := y])) \<le> Suc (length (filter P xs))"
proof (induction xs arbitrary: i)
  case Nil
  show ?case by simp
next
  case (Cons x xs)
  show ?case
  proof (cases i)
    case 0
    then show ?thesis by simp
  next
    case (Suc k)
    with Cons.IH[of k] show ?thesis by simp
  qed
qed

lemma tick_bounds:
  "dispatchedCount (tick config hasHandler now w) \<le> dispatchedCount w + 1
   \<and> activeJobs (tick config hasHandler now w) \<le> activeJobs w + 1
   \<and> jobsStarted (tick config hasHandler now w) \<le> jobsStarted w + 1
   \<and> length (inFlight (tick config hasHandler now w)) \<le> length (inFlight w) + 1
   \<and> length (jobs (queue (tick config hasHandler now w))) = length (jobs (queue w))"
  using tick_cases[of config hasHandler now w]
proof (elim disjE exE conjE)
  assume "tick config hasHandler now w = w"
  then show ?thesis by simp
next
  fix ref
  assume t: "tick config hasHandler now w =
             w\<lparr>queue := (queue w)\<lparr>jobs := (jobs (queue w))
                    [ref := (jobs (queue w) ! ref)\<lparr>startedAt := Some now\<rparr>]\<rparr>,
               activeJobs := activeJobs w + 1,
               jobsStarted := jobsStarted w + 1,
               activeJobsGauge := activeJobs w + 1,
               inFlight := inFlight w @ [ref]\<rparr>"
  show ?thesis
    unfolding t dispatchedCount_def
    using filter_update_length[of "\<lambda>job. startedAt job \<noteq> None" "jobs (queue w)" ref]
    by simp
qed

lemma tick_keeps_ceiling:
  assumes "activeJobs w \<le> maxConcurrentJobs config"
  shows "activeJobs (tick config hasHandler now w) \<le> maxConcurrentJobs config"
  using tick_cases[of config hasHandler now w] assms by auto

lemma step_keeps_ceiling:
  assumes "step config hasHandler e w = Some w'" "activeJobs w \<le> maxConcurrentJobs config"
  shows "activeJobs w' \<le> maxConcurrentJobs config"
proof (cases e)
  case (Enqueued ty pl c1 rnd c2)
  with assms show ?thesis by auto
next
  case (TimerFired now)
  with assms tick_keeps_ceiling[OF assms(2), of hasHandler now] show ?thesis by auto
next
  case (HandlerReturned ref result now)
  with assms show ?thesis
    by (auto simp: handlerResolved_def split: if_splits option.splits)
next
  case (HandlerThrew ref)
  with assms show ?thesis
    by (auto simp: handlerRejected_def Let_def split: if_splits)
qed

lemma run_keeps_ceiling:
  "run config hasHandler events w = Some w' \<Longrightarrow> activeJobs w \<le> maxConcurrentJobs config
   \<Longrightarrow> activeJobs w' \<le> maxConcurrentJobs config"
proof (induction events arbitrary: w)
  case Nil
  then show ?case by simp
next
  case (Cons e es)
  from Cons.prems(1) obtain v where v: "step config hasHandler e w = Some v"
    "run config hasHandler es v = Some w'"
    by (auto split: option.splits)
  from step_keeps_ceiling[OF v(1) Cons.prems(2)] Cons.IH[OF v(2)]
  show ?case by simp
qed

lemma length_remove1_int:
  "ref \<in> set xs \<Longrightarrow> int (length (remove1 ref xs)) = int (length xs) - 1"
proof -
  assume m: "ref \<in> set xs"
  then have "int (length xs - 1) = int (length xs) - 1" by (cases xs) simp_all
  with m show ?thesis by (simp add: length_remove1)
qed

lemma tick_counts_inFlight:
  assumes "activeJobs w = int (length (inFlight w))"
  shows "activeJobs (tick config hasHandler now w) =
         int (length (inFlight (tick config hasHandler now w)))"
  using tick_cases[of config hasHandler now w] assms by auto

lemma step_counts_inFlight:
  assumes "step config hasHandler e w = Some w'" "activeJobs w = int (length (inFlight w))"
  shows "activeJobs w' = int (length (inFlight w'))"
proof (cases e)
  case (Enqueued ty pl c1 rnd c2)
  with assms show ?thesis by auto
next
  case (TimerFired now)
  with assms tick_counts_inFlight[OF assms(2), of config hasHandler now] show ?thesis by auto
next
  case (HandlerReturned ref result now)
  with assms show ?thesis
    by (auto simp: handlerResolved_def length_remove1_int split: if_splits option.splits)
next
  case (HandlerThrew ref)
  with assms show ?thesis
    by (auto simp: handlerRejected_def Let_def length_remove1_int split: if_splits)
qed

lemma run_counts_inFlight:
  "run config hasHandler events w = Some w' \<Longrightarrow> activeJobs w = int (length (inFlight w))
   \<Longrightarrow> activeJobs w' = int (length (inFlight w'))"
proof (induction events arbitrary: w)
  case Nil
  then show ?case by simp
next
  case (Cons e es)
  from Cons.prems(1) obtain v where v: "step config hasHandler e w = Some v"
    "run config hasHandler es v = Some w'"
    by (auto split: option.splits)
  from step_counts_inFlight[OF v(1) Cons.prems(2)] Cons.IH[OF v(2)]
  show ?case by simp
qed





text \<open>
  Claim C1.  When the number of active jobs has reached the configured ceiling, the
  part of tick that runs when the timer fires changes nothing: no startedAt is set and
  the active count, the started counter and the gauge stay as they are, whatever is
  pending.  Any tick sets startedAt on at most one job and raises the active count and
  the started counter by at most one.  Hence, over every sequence of enqueues, ticks and
  handler settlements, an active count that is within the ceiling stays within it; from
  the initial state (no active job, a ceiling that is not negative) it is never above
  the ceiling, and it equals the number of jobs in flight.
\<close>

theorem tick_respects_concurrency_ceiling:
  "(maxConcurrentJobs config \<le> activeJobs w \<longrightarrow> tick config hasHandler now w = w)
   \<and> dispatchedCount (tick config hasHandler now w) \<le> dispatchedCount w + 1
   \<and> activeJobs (tick config hasHandler now w) \<le> activeJobs w + 1
   \<and> jobsStarted (tick config hasHandler now w) \<le> jobsStarted w + 1
   \<and> length (inFlight (tick config hasHandler now w)) \<le> length (inFlight w) + 1
   \<and> (activeJobs w \<le> maxConcurrentJobs config \<and> run config hasHandler events w = Some w'
        \<longrightarrow> activeJobs w' \<le> maxConcurrentJobs config)
   \<and> (0 \<le> maxConcurrentJobs config \<and> run config hasHandler events0 initialWorker = Some w0
        \<longrightarrow> activeJobs w0 \<le> maxConcurrentJobs config
            \<and> activeJobs w0 = int (length (inFlight w0)))"
proof -
  have a: "maxConcurrentJobs config \<le> activeJobs w \<longrightarrow> tick config hasHandler now w = w"
    using tick_at_ceiling by blast
  note b = tick_bounds[of config hasHandler now w]
  have c: "activeJobs w \<le> maxConcurrentJobs config \<and> run config hasHandler events w = Some w'
        \<longrightarrow> activeJobs w' \<le> maxConcurrentJobs config"
    using run_keeps_ceiling by blast
  have d: "0 \<le> maxConcurrentJobs config \<and> run config hasHandler events0 initialWorker = Some w0
        \<longrightarrow> activeJobs w0 \<le> maxConcurrentJobs config
            \<and> activeJobs w0 = int (length (inFlight w0))"
  proof (intro impI, elim conjE)
    assume z: "0 \<le> maxConcurrentJobs config"
      and r: "run config hasHandler events0 initialWorker = Some w0"
    have i1: "activeJobs initialWorker \<le> maxConcurrentJobs config"
      using z by (simp add: initialWorker_def)
    have i2: "activeJobs initialWorker = int (length (inFlight initialWorker))"
      by (simp add: initialWorker_def)
    from run_keeps_ceiling[OF r i1] run_counts_inFlight[OF r i2]
    show "activeJobs w0 \<le> maxConcurrentJobs config
            \<and> activeJobs w0 = int (length (inFlight w0))" by simp
  qed
  from a b c d show ?thesis by blast
qed

lemma run_fiveJobsFourTicks:
  "run defaultConfig handlers fiveJobsFourTicks initialWorker = Some busyWorker"
  by (simp add: fiveJobsFourTicks_def busyWorker_def initialWorker_def emptyQueue_def
      defaultConfig_def sampleJob_def enqueue_def tick_def next_job_def notStarted_def Let_def)

theorem tick_respects_concurrency_ceiling_witness:
  "maxConcurrentJobs defaultConfig = 4
   \<and> run defaultConfig handlers fiveJobsFourTicks initialWorker = Some busyWorker
   \<and> activeJobs busyWorker = 4
   \<and> fst (next_job (queue busyWorker)) = Some 4
   \<and> tick defaultConfig handlers 50 busyWorker = busyWorker
   \<and> run defaultConfig handlers [TimerFired 50, TimerFired 60] busyWorker = Some busyWorker
   \<and> activeJobs busyWorker \<le> maxConcurrentJobs defaultConfig"
proof -
  have m: "maxConcurrentJobs defaultConfig = 4" by (simp add: defaultConfig_def)
  have act: "activeJobs busyWorker = 4" by (simp add: busyWorker_def)
  have nxt: "fst (next_job (queue busyWorker)) = Some 4"
    by (simp add: busyWorker_def next_job_def notStarted_def sampleJob_def)
  have full: "maxConcurrentJobs defaultConfig \<le> activeJobs busyWorker"
    using m act by simp
  note inst = tick_respects_concurrency_ceiling
    [of defaultConfig busyWorker handlers 50 "[TimerFired 50, TimerFired 60]" busyWorker
        fiveJobsFourTicks busyWorker]
  from inst full have t: "tick defaultConfig handlers 50 busyWorker = busyWorker"
    by blast
  have t': "tick defaultConfig handlers 60 busyWorker = busyWorker"
    using full by (rule tick_at_ceiling)
  have r2: "run defaultConfig handlers [TimerFired 50, TimerFired 60] busyWorker = Some busyWorker"
    by (simp add: t t')
  have nonneg: "0 \<le> maxConcurrentJobs defaultConfig" using m by simp
  from inst nonneg run_fiveJobsFourTicks
  have le: "activeJobs busyWorker \<le> maxConcurrentJobs defaultConfig"
    by blast
  from m run_fiveJobsFourTicks act nxt t r2 le show ?thesis by (intro conjI)
qed





section \<open>Properties of fork creation\<close>

text \<open>
  Claim C5.  For every fork key: creating a fork whose address already holds a record
  fails with AlreadyExists and leaves the store, and so the record it holds at that
  address, as it was.  In particular, after a first creation for a key succeeds, a
  second creation for the same key is rejected and the first record stays.
\<close>

theorem createFork_rejects_existing:
  "(store (deriveAddress ''fork'' key) = Some existing \<longrightarrow>
      createFork key record2 store = (Inl AlreadyExists, store)
      \<and> snd (createFork key record2 store) (deriveAddress ''fork'' key) = Some existing)
   \<and> (fresh (deriveAddress ''fork'' key) = None \<longrightarrow>
      createFork key record1 fresh = (Inr (), fresh(deriveAddress ''fork'' key \<mapsto> record1))
      \<and> createFork key record2 (snd (createFork key record1 fresh)) =
          (Inl AlreadyExists, snd (createFork key record1 fresh))
      \<and> snd (createFork key record2 (snd (createFork key record1 fresh)))
           (deriveAddress ''fork'' key) = Some record1)"
  by (simp add: createFork_def createIfAbsent_def)

theorem createFork_rejects_existing_witness:
  "createFork ''forkA'' (mkFork ''forkA'' 0) Map.empty =
     (Inr (), [deriveAddress ''fork'' ''forkA'' \<mapsto> mkFork ''forkA'' 0])
   \<and> createFork ''forkA'' (mkFork ''forkA'' 1)
        [deriveAddress ''fork'' ''forkA'' \<mapsto> mkFork ''forkA'' 0] =
     (Inl AlreadyExists, [deriveAddress ''fork'' ''forkA'' \<mapsto> mkFork ''forkA'' 0])"
proof -
  have absent: "(Map.empty :: Address \<rightharpoonup> ForkMetadata) (deriveAddress ''fork'' ''forkA'') = None"
    by simp
  have present: "[deriveAddress ''fork'' ''forkA'' \<mapsto> mkFork ''forkA'' 0]
      (deriveAddress ''fork'' ''forkA'') = Some (mkFork ''forkA'' 0)"
    by simp
  note inst = createFork_rejects_existing
    [of "[deriveAddress ''fork'' ''forkA'' \<mapsto> mkFork ''forkA'' 0]" "''forkA''"
        "mkFork ''forkA'' 0" "mkFork ''forkA'' 1" Map.empty "mkFork ''forkA'' 0"]
  from inst absent have first: "createFork ''forkA'' (mkFork ''forkA'' 0) Map.empty =
     (Inr (), [deriveAddress ''fork'' ''forkA'' \<mapsto> mkFork ''forkA'' 0])"
    by blast
  from inst present have second: "createFork ''forkA'' (mkFork ''forkA'' 1)
        [deriveAddress ''fork'' ''forkA'' \<mapsto> mkFork ''forkA'' 0] =
     (Inl AlreadyExists, [deriveAddress ''fork'' ''forkA'' \<mapsto> mkFork ''forkA'' 0])"
    by blast
  from first second show ?thesis by (rule conjI)
qed

end
